theory Spec2Isabelle
  imports Main "HOL-Library.Word"
begin

unbundle bit_operations_syntax

section \<open>Bytes, byte order and the object representation of scalars\<close>

text \<open>
  \<^verbatim>\<open>Serializer.h\<close> moves the bytes of fixed-width scalars between memory and a stream.
  A scalar of type \<^verbatim>\<open>T\<close> is modelled by its bit pattern, a word of \<open>8 * sizeof(T)\<close> bits;
  this covers the integral types and, since the code never does arithmetic on the value,
  the IEEE floating point types as well (a \<^verbatim>\<open>float\<close> is its 32-bit pattern, a
  \<^verbatim>\<open>double\<close> its 64-bit pattern).

  The enumeration of the header has two values; \<^verbatim>\<open>BDF_SYSTEM_ENDIAN\<close> is an alias of
  one of them, chosen by the compiler from \<^verbatim>\<open>__BYTE_ORDER__\<close>. The host order is therefore
  a parameter \<open>sys\<close> of every definition below, and the tag "native" is the tag \<open>sys\<close>.
\<close>

type_synonym byte = "8 word"

datatype endian = BDF_LITTLE_ENDIAN | BDF_BIG_ENDIAN

text \<open>\<^verbatim>\<open>sizeof(T)\<close>, in bytes.\<close>

definition sizeof :: "'a::len itself \<Rightarrow> nat" where
  "sizeof T = LENGTH('a) div 8"

text \<open>
  \<^verbatim>\<open>reinterpret_cast<char *>(&v)\<close> views a scalar as the \<open>sizeof(T)\<close> bytes it occupies in
  memory. On a little-endian host the byte at offset \<open>i\<close> holds bits \<open>8i .. 8i+7\<close>; on a
  big-endian host the order of the bytes is the reverse.
\<close>

definition le_bytes :: "nat \<Rightarrow> 'a::len word \<Rightarrow> byte list" where
  "le_bytes n v = map (\<lambda>i. ucast (drop_bit (8 * i) v)) [0..<n]"

fun le_value :: "byte list \<Rightarrow> 'a::len word" where
  "le_value [] = 0"
| "le_value (b # bs) = ucast b OR push_bit 8 (le_value bs)"

definition object_bytes :: "endian \<Rightarrow> 'a::len word \<Rightarrow> byte list" where
  "object_bytes sys v =
     (case sys of
        BDF_LITTLE_ENDIAN \<Rightarrow> le_bytes (sizeof TYPE('a)) v
      | BDF_BIG_ENDIAN \<Rightarrow> rev (le_bytes (sizeof TYPE('a)) v))"

definition object_value :: "endian \<Rightarrow> byte list \<Rightarrow> 'a::len word" where
  "object_value sys bs =
     (case sys of
        BDF_LITTLE_ENDIAN \<Rightarrow> le_value bs
      | BDF_BIG_ENDIAN \<Rightarrow> le_value (rev bs))"

section \<open>The byte-order transform\<close>

text \<open>\<^verbatim>\<open>std::swap(src[i], src[j])\<close> on a byte buffer.\<close>

definition std_swap :: "nat \<Rightarrow> nat \<Rightarrow> byte list \<Rightarrow> byte list" where
  "std_swap i j src = src[i := src ! j, j := src ! i]"

text \<open>
  \<^verbatim>\<open>template<int nBytes> void swapBytes(char *src)\<close> is declared for every width and
  defined by four specialisations only. A program that instantiates another width has
  no definition to link against: that is \<open>None\<close>. The buffer always is the object of a
  scalar of \<open>nBytes\<close> bytes, so every index used is in range.
\<close>

definition swapBytes :: "nat \<Rightarrow> byte list \<Rightarrow> byte list option" where
  "swapBytes nBytes src =
     (if nBytes = 1 then Some src
      else if nBytes = 2 then Some (std_swap 0 1 src)
      else if nBytes = 4 then Some (std_swap 1 2 (std_swap 0 3 src))
      else if nBytes = 8 then
        Some (std_swap 3 4 (std_swap 2 5 (std_swap 1 6 (std_swap 0 7 src))))
      else None)"

text \<open>\<^verbatim>\<open>template<typename T> void swapBytes(T & src)\<close>: the swap applied to the object of \<open>src\<close>.\<close>

definition swapBytes_T :: "endian \<Rightarrow> 'a::len word \<Rightarrow> 'a word option" where
  "swapBytes_T sys src =
     map_option (object_value sys) (swapBytes (sizeof TYPE('a)) (object_bytes sys src))"

text \<open>\<^verbatim>\<open>Swapper<Enabled>::swap(T & v)\<close>.\<close>

definition Swapper_swap :: "endian \<Rightarrow> bool \<Rightarrow> 'a::len word \<Rightarrow> 'a word option" where
  "Swapper_swap sys Enabled v = (if Enabled then swapBytes_T sys v else Some v)"

section \<open>The stream and the serializer\<close>

datatype error = Stream_fault | Assertion_failed | No_swapBytes | Out_of_bounds

text \<open>
  Modelled from the spec: the \<^verbatim>\<open>Stream\<close> template parameter is an external collaborator
  that is not part of the header. The spec asks of it \<^verbatim>\<open>write(bytes, n)\<close> and
  \<^verbatim>\<open>read(bytes, n)\<close>, where a read "must fill exactly n bytes or signal failure" and a
  failure propagates to the caller. The model is a queue of bytes: a write appends
  \<open>n\<close> bytes of the buffer, a read removes the first \<open>n\<close> bytes, and a read of more
  bytes than remain is the fault, which transfers nothing.
\<close>

type_synonym stream = "byte list"

definition stream_write :: "byte list \<Rightarrow> nat \<Rightarrow> stream \<Rightarrow> stream" where
  "stream_write str n ss = ss @ take n str"

definition stream_read :: "nat \<Rightarrow> stream \<Rightarrow> error + byte list \<times> stream" where
  "stream_read n ss =
     (if n \<le> length ss then Inr (take n ss, drop n ss) else Inl Stream_fault)"

text \<open>\<^verbatim>\<open>void Serializer::write(const char * str, size_t n)\<close>.\<close>

definition Serializer_write :: "byte list \<Rightarrow> nat \<Rightarrow> stream \<Rightarrow> stream" where
  "Serializer_write str n ss = stream_write str n ss"

text \<open>\<^verbatim>\<open>void Serializer::read(char * str, size_t n)\<close>, with its assertion.\<close>

definition Serializer_read_n :: "nat \<Rightarrow> stream \<Rightarrow> error + byte list \<times> stream" where
  "Serializer_read_n n ss = (if 0 < n then stream_read n ss else Inl Assertion_failed)"

text \<open>
  \<^verbatim>\<open>Self & operator << (T v)\<close>. The parameter is passed by value: \<open>v\<close> is the callee's
  copy. The body swaps the copy and writes its object bytes; it is modelled with the
  final value of the copy next to the stream.
\<close>

definition put_T_body ::
  "endian \<Rightarrow> endian \<Rightarrow> 'a::len word \<Rightarrow> stream \<Rightarrow> error + 'a word \<times> stream" where
  "put_T_body sys Endian v ss =
     (case Swapper_swap sys (Endian \<noteq> sys) v of
        None \<Rightarrow> Inl No_swapBytes
      | Some v' \<Rightarrow> Inr (v', Serializer_write (object_bytes sys v') (sizeof TYPE('a)) ss))"

definition put_T :: "endian \<Rightarrow> endian \<Rightarrow> 'a::len word \<Rightarrow> stream \<Rightarrow> error + stream" where
  "put_T sys Endian v ss =
     (case put_T_body sys Endian v ss of Inl err \<Rightarrow> Inl err | Inr (v', ss') \<Rightarrow> Inr ss')"

text \<open>
  \<^verbatim>\<open>Self & operator >> (T & v)\<close>. The destination is a reference: the operation takes its
  current value and returns the status, the destination and the stream as they are
  when the operation ends, also when it ends by a fault.
\<close>

type_synonym 'a outcome = "error option \<times> 'a \<times> stream"

definition get_T :: "endian \<Rightarrow> endian \<Rightarrow> 'a::len word \<Rightarrow> stream \<Rightarrow> 'a word outcome" where
  "get_T sys Endian v ss =
     (case Serializer_read_n (sizeof TYPE('a)) ss of
        Inl err \<Rightarrow> (Some err, v, ss)
      | Inr (str, ss') \<Rightarrow>
          (case Swapper_swap sys (Endian \<noteq> sys) (object_value sys str) of
             None \<Rightarrow> (Some No_swapBytes, object_value sys str, ss')
           | Some v' \<Rightarrow> (None, v', ss')))"

text \<open>
  Modelled from the spec: \<^verbatim>\<open>size_t\<close> is the platform's type, not the header's. The spec
  gives "64-bit on modern systems", so it is 64 bits wide here (an LP64 platform). A
  container's \<^verbatim>\<open>size()\<close> is a \<^verbatim>\<open>size_t\<close>, so the conversion \<open>of_nat\<close> of a length is
  exact for every container that exists on the platform (fewer than \<open>2 ^ 64\<close> elements).
\<close>

type_synonym size_t = "64 word"

section \<open>Strings\<close>

text \<open>
  \<^verbatim>\<open>std::strlen\<close> on the memory a \<^verbatim>\<open>const char *\<close> points to: the number of bytes before
  the first null byte. A buffer without a null byte is read past its end.
\<close>

fun strlen :: "byte list \<Rightarrow> nat option" where
  "strlen [] = None"
| "strlen (c # cs) = (if c = 0 then Some 0 else map_option Suc (strlen cs))"

text \<open>\<^verbatim>\<open>Self & operator << (const char * str)\<close>.\<close>

definition put_cstr :: "endian \<Rightarrow> endian \<Rightarrow> byte list \<Rightarrow> stream \<Rightarrow> error + stream" where
  "put_cstr sys Endian str ss =
     (case strlen str of
        None \<Rightarrow> Inl Out_of_bounds
      | Some n \<Rightarrow>
          (case put_T sys Endian (of_nat n :: size_t) ss of
             Inl err \<Rightarrow> Inl err
           | Inr ss1 \<Rightarrow> Inr (Serializer_write str n ss1)))"

text \<open>\<^verbatim>\<open>operator << (Serializer &, const std::string & str)\<close>.\<close>

definition put_string :: "endian \<Rightarrow> endian \<Rightarrow> byte list \<Rightarrow> stream \<Rightarrow> error + stream" where
  "put_string sys Endian str ss =
     (case put_T sys Endian (of_nat (length str) :: size_t) ss of
        Inl err \<Rightarrow> Inl err
      | Inr ss1 \<Rightarrow> Inr (Serializer_write str (length str) ss1))"

text \<open>
  \<^verbatim>\<open>resize(n)\<close> of \<^verbatim>\<open>std::string\<close> and \<^verbatim>\<open>std::vector\<close>: keep the first \<open>n\<close> elements and
  pad with value-initialised ones. Allocation always succeeds in the model.
\<close>

definition resize :: "nat \<Rightarrow> 'a \<Rightarrow> 'a list \<Rightarrow> 'a list" where
  "resize n c xs = take n xs @ replicate (n - length xs) c"

text \<open>Storing the bytes a read delivers at the start of a buffer.\<close>

definition store :: "byte list \<Rightarrow> byte list \<Rightarrow> byte list" where
  "store bs buf = bs @ drop (length bs) buf"

text \<open>
  \<^verbatim>\<open>operator >> (Serializer &, std::string & str)\<close>. The local \<^verbatim>\<open>size_t n\<close> is not
  initialised in the source; it is written by the read before it is used, and it is dead
  when the read faults, so the value it starts with (here 0) is never observed.
\<close>

definition get_string :: "endian \<Rightarrow> endian \<Rightarrow> byte list \<Rightarrow> stream \<Rightarrow> byte list outcome" where
  "get_string sys Endian str ss =
     (case get_T sys Endian (0 :: size_t) ss of
        (Some err, n, ss') \<Rightarrow> (Some err, str, ss')
      | (None, n, ss1) \<Rightarrow>
          (let str1 = resize (unat n) 0 str in
           case Serializer_read_n (unat n) ss1 of
             Inl err \<Rightarrow> (Some err, str1, ss1)
           | Inr (bs, ss2) \<Rightarrow> (None, store bs str1, ss2)))"

text \<open>
  \<^verbatim>\<open>size_t Serializer::read(char * str)\<close>, the raw-buffer read: it calls the stream's read
  directly, not the asserting \<^verbatim>\<open>read(char *, size_t)\<close>. The result holds the count.
\<close>

definition Serializer_read ::
  "endian \<Rightarrow> endian \<Rightarrow> byte list \<Rightarrow> stream \<Rightarrow> (nat \<times> byte list) outcome" where
  "Serializer_read sys Endian str ss =
     (case get_T sys Endian (0 :: size_t) ss of
        (Some err, n, ss') \<Rightarrow> (Some err, (unat n, str), ss')
      | (None, n, ss1) \<Rightarrow>
          (case stream_read (unat n) ss1 of
             Inl err \<Rightarrow> (Some err, (unat n, str), ss1)
           | Inr (bs, ss2) \<Rightarrow> (None, (unat n, store bs str), ss2)))"

section \<open>Pairs, vectors and maps\<close>

text \<open>
  The composite operators are templates over the element types. An element type with
  its \<^verbatim>\<open>operator <<\<close> is a function \<open>'a \<Rightarrow> stream \<Rightarrow> error + stream\<close>, with its
  \<^verbatim>\<open>operator >>\<close> a function \<open>'a \<Rightarrow> stream \<Rightarrow> 'a outcome\<close>; overload resolution is the choice
  of these arguments.
\<close>

text \<open>\<^verbatim>\<open>operator << (Serializer &, const std::pair<T1,T2> & p)\<close>.\<close>

definition put_pair ::
  "('a \<Rightarrow> stream \<Rightarrow> error + stream) \<Rightarrow> ('b \<Rightarrow> stream \<Rightarrow> error + stream)
     \<Rightarrow> 'a \<times> 'b \<Rightarrow> stream \<Rightarrow> error + stream" where
  "put_pair put1 put2 p ss =
     (case put1 (fst p) ss of Inl err \<Rightarrow> Inl err | Inr ss1 \<Rightarrow> put2 (snd p) ss1)"

text \<open>\<^verbatim>\<open>operator >> (Serializer &, std::pair<T1,T2> & p)\<close>.\<close>

definition get_pair ::
  "('a \<Rightarrow> stream \<Rightarrow> 'a outcome) \<Rightarrow> ('b \<Rightarrow> stream \<Rightarrow> 'b outcome)
     \<Rightarrow> 'a \<times> 'b \<Rightarrow> stream \<Rightarrow> ('a \<times> 'b) outcome" where
  "get_pair get1 get2 p ss =
     (case get1 (fst p) ss of
        (Some err, a, ss1) \<Rightarrow> (Some err, (a, snd p), ss1)
      | (None, a, ss1) \<Rightarrow>
          (case get2 (snd p) ss1 of (st, b, ss2) \<Rightarrow> (st, (a, b), ss2)))"

text \<open>The iterator loop \<^verbatim>\<open>for(auto it=begin(); it!=end(); ++it) s << *it\<close>.\<close>

fun put_each :: "('a \<Rightarrow> stream \<Rightarrow> error + stream) \<Rightarrow> 'a list \<Rightarrow> stream \<Rightarrow> error + stream" where
  "put_each put [] ss = Inr ss"
| "put_each put (x # xs) ss =
     (case put x ss of Inl err \<Rightarrow> Inl err | Inr ss1 \<Rightarrow> put_each put xs ss1)"

text \<open>\<^verbatim>\<open>operator << (Serializer &, const std::vector<T> & vv)\<close>.\<close>

definition put_vector ::
  "('a \<Rightarrow> stream \<Rightarrow> error + stream) \<Rightarrow> endian \<Rightarrow> endian \<Rightarrow> 'a list \<Rightarrow> stream
     \<Rightarrow> error + stream" where
  "put_vector put sys Endian vv ss =
     (case put_T sys Endian (of_nat (length vv) :: size_t) ss of
        Inl err \<Rightarrow> Inl err
      | Inr ss1 \<Rightarrow> put_each put vv ss1)"

text \<open>The loop \<^verbatim>\<open>for(size_t i=0; i<n; ++i) s >> vv[i]\<close>; \<open>vv\<close> has \<open>n\<close> elements.\<close>

function get_vector_loop ::
  "('a \<Rightarrow> stream \<Rightarrow> 'a outcome) \<Rightarrow> nat \<Rightarrow> nat \<Rightarrow> 'a list \<Rightarrow> stream \<Rightarrow> 'a list outcome" where
  "get_vector_loop get i n vv ss =
     (if i < n then
        (case get (vv ! i) ss of
           (Some err, x, ss1) \<Rightarrow> (Some err, vv[i := x], ss1)
         | (None, x, ss1) \<Rightarrow> get_vector_loop get (Suc i) n (vv[i := x]) ss1)
      else (None, vv, ss))"
  by pat_completeness auto
termination
  by (relation "measure (\<lambda>(get, i, n, vv, ss). n - i)") auto

declare get_vector_loop.simps [simp del]

text \<open>
  \<^verbatim>\<open>operator >> (Serializer &, std::vector<T> & vv)\<close>; \<open>T0\<close> is the value-initialised
  element \<^verbatim>\<open>T()\<close> that \<^verbatim>\<open>resize\<close> inserts.
\<close>

definition get_vector ::
  "('a \<Rightarrow> stream \<Rightarrow> 'a outcome) \<Rightarrow> 'a \<Rightarrow> endian \<Rightarrow> endian \<Rightarrow> 'a list \<Rightarrow> stream
     \<Rightarrow> 'a list outcome" where
  "get_vector get T0 sys Endian vv ss =
     (case get_T sys Endian (0 :: size_t) ss of
        (Some err, n, ss') \<Rightarrow> (Some err, vv, ss')
      | (None, n, ss1) \<Rightarrow> get_vector_loop get 0 (unat n) (resize (unat n) T0 []) ss1)"

text \<open>
  A \<^verbatim>\<open>std::map<T1,T2>\<close> is the list of its entries in iteration order, which is the
  strict order of the keys. \<^verbatim>\<open>mm[k] = v\<close> overwrites the entry of an equal key and
  inserts a new entry at its place in the order otherwise.
\<close>

fun map_assign :: "'k::linorder \<Rightarrow> 'v \<Rightarrow> ('k \<times> 'v) list \<Rightarrow> ('k \<times> 'v) list" where
  "map_assign k v [] = [(k, v)]"
| "map_assign k v ((k', v') # mm) =
     (if k < k' then (k, v) # (k', v') # mm
      else if k = k' then (k, v) # mm
      else (k', v') # map_assign k v mm)"

text \<open>\<^verbatim>\<open>operator << (Serializer &, const std::map<T1,T2> & mm)\<close>.\<close>

definition put_map ::
  "('k \<Rightarrow> stream \<Rightarrow> error + stream) \<Rightarrow> ('v \<Rightarrow> stream \<Rightarrow> error + stream)
     \<Rightarrow> endian \<Rightarrow> endian \<Rightarrow> ('k \<times> 'v) list \<Rightarrow> stream \<Rightarrow> error + stream" where
  "put_map put1 put2 sys Endian mm ss =
     (case put_T sys Endian (of_nat (length mm) :: size_t) ss of
        Inl err \<Rightarrow> Inl err
      | Inr ss1 \<Rightarrow> put_each (put_pair put1 put2) mm ss1)"

text \<open>
  The loop \<^verbatim>\<open>for(size_t i=0; i<n; ++i) { s >> p; mm[p.first] = p.second; }\<close>; the local
  pair \<open>p\<close> lives across the iterations.
\<close>

function get_map_loop ::
  "('k::linorder \<Rightarrow> stream \<Rightarrow> 'k outcome) \<Rightarrow> ('v \<Rightarrow> stream \<Rightarrow> 'v outcome)
     \<Rightarrow> nat \<Rightarrow> nat \<Rightarrow> ('k \<times> 'v) list \<Rightarrow> 'k \<times> 'v \<Rightarrow> stream \<Rightarrow> ('k \<times> 'v) list outcome" where
  "get_map_loop get1 get2 i n mm p ss =
     (if i < n then
        (case get_pair get1 get2 p ss of
           (Some err, p', ss1) \<Rightarrow> (Some err, mm, ss1)
         | (None, p', ss1) \<Rightarrow>
             get_map_loop get1 get2 (Suc i) n (map_assign (fst p') (snd p') mm) p' ss1)
      else (None, mm, ss))"
  by pat_completeness auto
termination
  by (relation "measure (\<lambda>(get1, get2, i, n, mm, p, ss). n - i)") auto

declare get_map_loop.simps [simp del]

text \<open>
  \<^verbatim>\<open>operator >> (Serializer &, std::map<T1,T2> & mm)\<close>; \<open>p0\<close> is the default-constructed
  \<^verbatim>\<open>std::pair<T1,T2> p\<close>.
\<close>

definition get_map ::
  "('k::linorder \<Rightarrow> stream \<Rightarrow> 'k outcome) \<Rightarrow> ('v \<Rightarrow> stream \<Rightarrow> 'v outcome) \<Rightarrow> 'k \<times> 'v
     \<Rightarrow> endian \<Rightarrow> endian \<Rightarrow> ('k \<times> 'v) list \<Rightarrow> stream \<Rightarrow> ('k \<times> 'v) list outcome" where
  "get_map get1 get2 p0 sys Endian mm ss =
     (case get_T sys Endian (0 :: size_t) ss of
        (Some err, n, ss') \<Rightarrow> (Some err, mm, ss')
      | (None, n, ss1) \<Rightarrow> get_map_loop get1 get2 0 (unat n) [] p0 ss1)"

section \<open>The scalar writer on objects in memory\<close>

text \<open>
  \<^verbatim>\<open>swapBytes\<close> works through a \<^verbatim>\<open>char *\<close>: it changes the object the pointer refers to.
  To say which object a write may change, the same code is given here over a byte
  memory with addresses. \<open>load m p n\<close> is the object representation found in the \<open>n\<close>
  bytes at address \<open>p\<close>, what \<^verbatim>\<open>reinterpret_cast<const char *>(p)\<close> reads.
\<close>

type_synonym memory = "nat \<Rightarrow> byte"

definition load :: "memory \<Rightarrow> nat \<Rightarrow> nat \<Rightarrow> byte list" where
  "load m p n = map (\<lambda>i. m (p + i)) [0..<n]"

text \<open>
  Copy-initialisation of a parameter of \<open>n\<close> bytes at address \<open>dst\<close> from the object at
  address \<open>src\<close>.
\<close>

definition mem_copy :: "memory \<Rightarrow> nat \<Rightarrow> nat \<Rightarrow> nat \<Rightarrow> memory" where
  "mem_copy m dst src n = (\<lambda>a. if dst \<le> a \<and> a < dst + n then m (src + (a - dst)) else m a)"

text \<open>\<^verbatim>\<open>std::swap(src[i], src[j])\<close>, with \<open>src\<close> an address.\<close>

definition mem_std_swap :: "nat \<Rightarrow> nat \<Rightarrow> nat \<Rightarrow> memory \<Rightarrow> memory" where
  "mem_std_swap src i j m = m(src + i := m (src + j), src + j := m (src + i))"

text \<open>The four specialisations of \<^verbatim>\<open>swapBytes<nBytes>(char *src)\<close>, on memory.\<close>

definition mem_swapBytes :: "nat \<Rightarrow> nat \<Rightarrow> memory \<Rightarrow> memory option" where
  "mem_swapBytes nBytes src m =
     (if nBytes = 1 then Some m
      else if nBytes = 2 then Some (mem_std_swap src 0 1 m)
      else if nBytes = 4 then Some (mem_std_swap src 1 2 (mem_std_swap src 0 3 m))
      else if nBytes = 8 then
        Some (mem_std_swap src 3 4 (mem_std_swap src 2 5 (mem_std_swap src 1 6
               (mem_std_swap src 0 7 m))))
      else None)"

text \<open>\<^verbatim>\<open>Swapper<Enabled>::swap(T & v)\<close>, with \<open>v\<close> the address of the object referred to.\<close>

definition mem_Swapper_swap :: "bool \<Rightarrow> nat \<Rightarrow> nat \<Rightarrow> memory \<Rightarrow> memory option" where
  "mem_Swapper_swap Enabled nBytes v m = (if Enabled then mem_swapBytes nBytes v m else Some m)"

text \<open>
  The body of \<^verbatim>\<open>Self & operator << (T v)\<close>, with \<open>v\<close> the address of the parameter object:
  \<^verbatim>\<open>Swapper<Endian!=BDF_SYSTEM_ENDIAN>::swap(v)\<close>, then
  \<^verbatim>\<open>write(reinterpret_cast<const char *>(&v), sizeof(T))\<close>.
\<close>

definition mem_put_T_body ::
  "endian \<Rightarrow> endian \<Rightarrow> nat \<Rightarrow> nat \<Rightarrow> memory \<Rightarrow> stream \<Rightarrow> error + memory \<times> stream" where
  "mem_put_T_body sys Endian nBytes v m ss =
     (case mem_Swapper_swap (Endian \<noteq> sys) nBytes v m of
        None \<Rightarrow> Inl No_swapBytes
      | Some m' \<Rightarrow> Inr (m', Serializer_write (load m' v nBytes) nBytes ss))"

text \<open>
  The call \<^verbatim>\<open>s << x\<close>, with \<open>x\<close> the address of the caller's object. The signature takes
  \<^verbatim>\<open>T v\<close> by value, so the parameter is an object of its own, at an address \<open>v\<close>, that is
  copy-initialised from the caller's object before the body runs.
\<close>

definition mem_call_put_T ::
  "endian \<Rightarrow> endian \<Rightarrow> nat \<Rightarrow> nat \<Rightarrow> nat \<Rightarrow> memory \<Rightarrow> stream \<Rightarrow> error + memory \<times> stream" where
  "mem_call_put_T sys Endian nBytes x v m ss =
     mem_put_T_body sys Endian nBytes v (mem_copy m v x nBytes) ss"

section \<open>Notions used to state the properties\<close>

text \<open>The scalar types for which \<^verbatim>\<open>swapBytes\<close> is defined: 1, 2, 4 and 8 bytes.\<close>

definition supported :: "'a::len itself \<Rightarrow> bool" where
  "supported T \<longleftrightarrow> LENGTH('a) \<in> {8, 16, 32, 64}"

text \<open>
  The bytes a scalar has on the wire under a tag: its object bytes when the tag is the
  host order, their reverse otherwise.
\<close>

definition wire_T :: "endian \<Rightarrow> endian \<Rightarrow> 'a::len word \<Rightarrow> byte list" where
  "wire_T sys Endian v =
     (if Endian \<noteq> sys then rev (object_bytes sys v) else object_bytes sys v)"

text \<open>One step of the map reader's loop body: \<^verbatim>\<open>mm[p.first] = p.second\<close>.\<close>

abbreviation assign_entry :: "('k::linorder \<times> 'v) list \<Rightarrow> 'k \<times> 'v \<Rightarrow> ('k \<times> 'v) list" where
  "assign_entry mm x \<equiv> map_assign (fst x) (snd x) mm"

text \<open>
  An element \<open>x\<close> round-trips through a writer and a reader: the writer appends bytes
  that do not depend on the stream, and the reader, started on these bytes with any
  destination and followed by any further data, stores \<open>x\<close> and leaves the further data.
\<close>

definition round_trips ::
  "('a \<Rightarrow> stream \<Rightarrow> error + stream) \<Rightarrow> ('a \<Rightarrow> stream \<Rightarrow> 'a outcome) \<Rightarrow> 'a \<Rightarrow> bool" where
  "round_trips put get x \<longleftrightarrow>
     (\<exists>bs. (\<forall>ss. put x ss = Inr (ss @ bs)) \<and> (\<forall>d rest. get d (bs @ rest) = (None, x, rest)))"

section \<open>Facts about bytes and the byte swap\<close>

lemma le_bytes_Suc: "le_bytes (Suc n) v = ucast v # le_bytes n (drop_bit 8 v)"
proof -
  have "[0..<Suc n] = 0 # map Suc [0..<n]"
    by (simp add: upt_conv_Cons map_Suc_upt del: upt_Suc)
  then show ?thesis
    by (simp add: le_bytes_def comp_def drop_bit_drop_bit add.commute del: upt_Suc)
qed

lemma length_le_bytes: "length (le_bytes n v) = n"
  by (simp add: le_bytes_def)

lemma le_value_le_bytes: "le_value (le_bytes n v) = (take_bit (8 * n) v :: 'a::len word)"
proof (induction n arbitrary: v)
  case 0
  show ?case by (simp add: le_bytes_def)
next
  case (Suc n)
  show ?case
    apply (simp only: le_bytes_Suc le_value.simps Suc)
    apply (rule bit_eqI)
    apply (auto simp add: bit_simps)
    done
qed

lemma le_bytes_take_bit: "8 * n \<le> m \<Longrightarrow> le_bytes n (take_bit m v) = le_bytes n v"
  unfolding le_bytes_def
  apply (rule map_cong[OF refl])
  apply (rule bit_eqI)
  apply (auto simp add: bit_simps)
  done

lemma le_bytes_le_value:
  "8 * length bs \<le> LENGTH('a) \<Longrightarrow> le_bytes (length bs) (le_value bs :: 'a::len word) = bs"
proof (induction bs)
  case Nil
  show ?case by (simp add: le_bytes_def)
next
  case (Cons b bs)
  have 1: "ucast (ucast b OR push_bit 8 (le_value bs :: 'a word) :: 'a word) = b"
    using Cons.prems
    apply -
    apply (rule bit_eqI)
    apply (auto simp add: bit_simps)
    done
  have 2: "drop_bit 8 (ucast b OR push_bit 8 (le_value bs :: 'a word) :: 'a word)
             = take_bit (LENGTH('a) - 8) (le_value bs :: 'a word)"
    apply (rule bit_eqI)
    apply (auto simp add: bit_simps dest: bit_imp_le_length)
    done
  have 3: "le_bytes (length bs) (take_bit (LENGTH('a) - 8) (le_value bs :: 'a word)) = bs"
    using Cons by (simp add: le_bytes_take_bit)
  show ?case
    by (simp only: list.size le_value.simps le_bytes_Suc 1 2 3 add_Suc_right add_0_right)
qed

lemma supported_sizeof: "supported TYPE('a::len) \<Longrightarrow> sizeof TYPE('a) \<in> {1, 2, 4, 8}"
  by (auto simp add: supported_def sizeof_def)

lemma supported_bits: "supported TYPE('a::len) \<Longrightarrow> 8 * sizeof TYPE('a) = LENGTH('a)"
  by (auto simp add: supported_def sizeof_def)

lemma length_object_bytes: "length (object_bytes sys (v :: 'a::len word)) = sizeof TYPE('a)"
  by (simp add: object_bytes_def length_le_bytes split: endian.split)

lemma object_value_bytes:
  assumes "supported TYPE('a::len)"
  shows "object_value sys (object_bytes sys v) = (v :: 'a word)"
  using supported_bits [OF assms]
  by (simp add: object_value_def object_bytes_def le_value_le_bytes split: endian.split)

lemma object_bytes_value:
  assumes "supported TYPE('a::len)" and "length bs = sizeof TYPE('a)"
  shows "object_bytes sys (object_value sys bs :: 'a word) = bs"
proof -
  have len: "8 * length bs \<le> LENGTH('a)"
    using supported_bits [OF assms(1)] assms(2) by simp
  have a: "le_bytes (sizeof TYPE('a)) (le_value bs :: 'a word) = bs"
    using le_bytes_le_value [OF len] assms(2) by simp
  have len': "8 * length (rev bs) \<le> LENGTH('a)"
    using len by simp
  have b: "le_bytes (sizeof TYPE('a)) (le_value (rev bs) :: 'a word) = rev bs"
    using le_bytes_le_value [OF len'] assms(2) by simp
  show ?thesis
    by (cases sys) (simp_all add: object_bytes_def object_value_def a b)
qed

text \<open>On a buffer of the right length each specialisation reverses the bytes.\<close>

lemma list_of_length_1: "length bs = Suc 0 \<Longrightarrow> \<exists>a. bs = [a]"
  by (cases bs) auto

lemma list_of_length_2: "length bs = 2 \<Longrightarrow> \<exists>a b. bs = [a, b]"
  by (auto simp add: numeral_2_eq_2 length_Suc_conv)

lemma list_of_length_4: "length bs = 4 \<Longrightarrow> \<exists>a b c d. bs = [a, b, c, d]"
  by (auto simp add: numeral_Bit0 length_Suc_conv)

lemma list_of_length_8:
  "length bs = 8 \<Longrightarrow> \<exists>a b c d e f g h. bs = [a, b, c, d, e, f, g, h]"
  by (auto simp add: numeral_Bit0 length_Suc_conv)

lemma swapBytes_rev:
  assumes "length src = nBytes" and "nBytes \<in> {1, 2, 4, 8}"
  shows "swapBytes nBytes src = Some (rev src)"
proof -
  consider "nBytes = 1" | "nBytes = 2" | "nBytes = 4" | "nBytes = 8"
    using assms(2) by auto
  then show ?thesis
  proof cases
    case 1
    then obtain a where "src = [a]"
      using assms(1) list_of_length_1 by auto
    with 1 show ?thesis by (simp add: swapBytes_def)
  next
    case 2
    then obtain a b where "src = [a, b]"
      using assms(1) list_of_length_2 by blast
    with 2 show ?thesis by (simp add: swapBytes_def std_swap_def)
  next
    case 3
    then obtain a b c d where "src = [a, b, c, d]"
      using assms(1) list_of_length_4 by blast
    with 3 show ?thesis by (simp add: swapBytes_def std_swap_def)
  next
    case 4
    then obtain a b c d e f g h where "src = [a, b, c, d, e, f, g, h]"
      using assms(1) list_of_length_8 by blast
    with 4 show ?thesis by (simp add: swapBytes_def std_swap_def)
  qed
qed

lemma swapBytes_T_rev:
  assumes "supported TYPE('a::len)"
  shows "swapBytes_T sys (v :: 'a word) = Some (object_value sys (rev (object_bytes sys v)))"
  using swapBytes_rev [OF length_object_bytes supported_sizeof [OF assms], of sys v]
  by (simp add: swapBytes_T_def)

lemma object_bytes_swapped:
  assumes "supported TYPE('a::len)"
  shows "object_bytes sys (object_value sys (rev (object_bytes sys v)) :: 'a word)
           = rev (object_bytes sys (v :: 'a word))"
  by (rule object_bytes_value [OF assms]) (simp add: length_object_bytes)

lemma swapBytes_T_twice:
  assumes "supported TYPE('a::len)"
  shows "\<exists>y. swapBytes_T sys (x :: 'a word) = Some y \<and> swapBytes_T sys y = Some x"
proof -
  let ?y = "object_value sys (rev (object_bytes sys x)) :: 'a word"
  have "swapBytes_T sys x = Some ?y"
    by (rule swapBytes_T_rev [OF assms])
  moreover have "swapBytes_T sys ?y = Some x"
    by (simp add: swapBytes_T_rev [OF assms] object_bytes_swapped [OF assms]
        object_value_bytes [OF assms])
  ultimately show ?thesis by blast
qed

lemma Swapper_swap_supported:
  assumes "supported TYPE('a::len)"
  shows "Swapper_swap sys Enabled (v :: 'a word)
           = Some (if Enabled then object_value sys (rev (object_bytes sys v)) else v)"
  by (simp add: Swapper_swap_def swapBytes_T_rev [OF assms])

lemma length_wire_T: "length (wire_T sys Endian (v :: 'a::len word)) = sizeof TYPE('a)"
  by (simp add: wire_T_def length_object_bytes)

lemma put_T_wire:
  assumes "supported TYPE('a::len)"
  shows "put_T sys Endian (v :: 'a word) ss = Inr (ss @ wire_T sys Endian v)"
  by (simp add: put_T_def put_T_body_def Swapper_swap_supported [OF assms]
      object_bytes_swapped [OF assms] Serializer_write_def stream_write_def wire_T_def
      length_object_bytes)

lemma get_T_wire:
  assumes "supported TYPE('a::len)"
  shows "get_T sys Endian d (wire_T sys Endian (v :: 'a word) @ rest) = (None, v, rest)"
proof -
  have pos: "0 < sizeof TYPE('a)"
    using supported_sizeof [OF assms] by auto
  have rd: "Serializer_read_n (sizeof TYPE('a)) (wire_T sys Endian v @ rest)
              = Inr (wire_T sys Endian v, rest)"
    using pos by (simp add: Serializer_read_n_def stream_read_def length_wire_T)
  show ?thesis
    by (simp add: get_T_def rd Swapper_swap_supported [OF assms])
      (simp add: wire_T_def object_bytes_swapped [OF assms] object_value_bytes [OF assms])
qed

lemma round_trips_T:
  assumes "supported TYPE('a::len)"
  shows "round_trips (put_T sys Endian) (get_T sys Endian) (v :: 'a word)"
  unfolding round_trips_def
  using put_T_wire [OF assms] get_T_wire [OF assms] by blast

lemma supported_size_t: "supported TYPE(64)"
  by (simp add: supported_def)

lemma sizeof_size_t: "sizeof TYPE(64) = 8"
  by (simp add: sizeof_def)

lemma unat_size: "n < 2 ^ 64 \<Longrightarrow> unat (of_nat n :: size_t) = n"
  by (simp add: unat_of_nat)

text \<open>Unfolding the writers and the readers on concrete inputs.\<close>

lemmas eval_put =
  put_vector_def put_map_def put_pair_def put_T_def put_T_body_def Swapper_swap_def
  swapBytes_T_def swapBytes_def sizeof_def object_bytes_def object_value_def le_bytes_def
  std_swap_def Serializer_write_def stream_write_def upt_rec

lemmas eval_get =
  get_T_def Serializer_read_n_def stream_read_def Swapper_swap_def
  swapBytes_T_def swapBytes_def sizeof_def object_bytes_def object_value_def le_bytes_def
  std_swap_def upt_rec

section \<open>The claims about scalars\<close>

text \<open>
  Claim C4. The byte-order transform is an involution: for every scalar \<open>x\<close> of width
  1, 2, 4 or 8 bytes, on either host, \<^verbatim>\<open>swapBytes\<close> applied to \<open>x\<close> gives a value on which
  \<^verbatim>\<open>swapBytes\<close> gives \<open>x\<close> again; for width 1 one swap already leaves \<open>x\<close> as it is.
\<close>

theorem swapBytes_involution:
  assumes "supported TYPE('a::len)"
  shows "(\<exists>y. swapBytes_T sys (x :: 'a word) = Some y \<and> swapBytes_T sys y = Some x)
         \<and> (sizeof TYPE('a) = 1 \<longrightarrow> swapBytes_T sys x = Some x)"
proof
  show "\<exists>y. swapBytes_T sys x = Some y \<and> swapBytes_T sys y = Some x"
    by (rule swapBytes_T_twice [OF assms])
  show "sizeof TYPE('a) = 1 \<longrightarrow> swapBytes_T sys x = Some x"
    by (simp add: swapBytes_T_def swapBytes_def object_value_bytes [OF assms])
qed

theorem swapBytes_involution_witness:
  "supported TYPE(32) \<and> supported TYPE(8)
   \<and> swapBytes_T BDF_LITTLE_ENDIAN (0x12345678 :: 32 word) = Some 0x78563412
   \<and> swapBytes_T BDF_LITTLE_ENDIAN (0x78563412 :: 32 word) = Some 0x12345678
   \<and> sizeof TYPE(8) = 1
   \<and> swapBytes_T BDF_BIG_ENDIAN (0x5A :: 8 word) = Some 0x5A"
proof -
  have h32: "supported TYPE(32)" and h8: "supported TYPE(8)"
    by (simp_all add: supported_def)
  have s8: "sizeof TYPE(8) = 1"
    by (simp add: sizeof_def)
  have a: "swapBytes_T BDF_LITTLE_ENDIAN (0x12345678 :: 32 word) = Some 0x78563412"
    by (simp add: swapBytes_T_def swapBytes_def sizeof_def object_bytes_def
        object_value_def le_bytes_def std_swap_def upt_rec)
  from swapBytes_involution [OF h32, of BDF_LITTLE_ENDIAN "0x12345678"] a
  have b: "swapBytes_T BDF_LITTLE_ENDIAN (0x78563412 :: 32 word) = Some 0x12345678"
    by auto
  from swapBytes_involution [OF h8, of BDF_BIG_ENDIAN "0x5A"] s8
  have c: "swapBytes_T BDF_BIG_ENDIAN (0x5A :: 8 word) = Some 0x5A"
    by blast
  from h32 h8 s8 a b c show ?thesis by blast
qed

text \<open>
  Claim C1. For every scalar \<open>v\<close> of a supported width (any bit pattern, so 0, the
  extreme values and the patterns of NaN and the infinities among them), every host order
  and every tag (the native tag is the tag equal to the host order), writing \<open>v\<close>
  appends \<open>sizeof(T)\<close> bytes to the stream, and reading from these bytes with the same tag,
  into any destination and with any data following, stores \<open>v\<close> and consumes exactly
  these bytes.
\<close>

theorem scalar_round_trip:
  assumes "supported TYPE('a::len)"
  shows "\<exists>bs. put_T sys Endian (v :: 'a word) ss = Inr (ss @ bs)
            \<and> length bs = sizeof TYPE('a)
            \<and> get_T sys Endian d (bs @ rest) = (None, v, rest)"
  using put_T_wire [OF assms, of sys Endian v ss] get_T_wire [OF assms, of sys Endian d v rest]
    length_wire_T [of sys Endian v]
  by blast

theorem scalar_round_trip_witness:
  "supported TYPE(16)
   \<and> put_T BDF_BIG_ENDIAN BDF_LITTLE_ENDIAN (0xFFFE :: 16 word) [7] = Inr [7, 0xFE, 0xFF]
   \<and> get_T BDF_BIG_ENDIAN BDF_LITTLE_ENDIAN (0 :: 16 word) [0xFE, 0xFF, 9] = (None, 0xFFFE, [9])"
proof -
  have h: "supported TYPE(16)"
    by (simp add: supported_def)
  have p: "put_T BDF_BIG_ENDIAN BDF_LITTLE_ENDIAN (0xFFFE :: 16 word) [7] = Inr [7, 0xFE, 0xFF]"
    by (simp add: put_T_def put_T_body_def Swapper_swap_def swapBytes_T_def swapBytes_def
        sizeof_def object_bytes_def object_value_def le_bytes_def std_swap_def
        Serializer_write_def stream_write_def upt_rec)
  from scalar_round_trip [OF h, of BDF_BIG_ENDIAN BDF_LITTLE_ENDIAN "0xFFFE" "[7]" 0 "[9]"] p
  have "get_T BDF_BIG_ENDIAN BDF_LITTLE_ENDIAN (0 :: 16 word) [0xFE, 0xFF, 9] = (None, 0xFFFE, [9])"
    by auto
  with h p show ?thesis by blast
qed

text \<open>
  Claim C5. On a little-endian host, writing the 32-bit value \<open>0x12345678\<close> with the
  big-endian tag puts the bytes \<open>12 34 56 78\<close> on the wire; reading them with the
  big-endian tag gives \<open>0x12345678\<close>, reading them with the little-endian tag gives
  \<open>0x78563412\<close>.
\<close>

theorem big_endian_scenario:
  "put_T BDF_LITTLE_ENDIAN BDF_BIG_ENDIAN (0x12345678 :: 32 word) [] = Inr [0x12, 0x34, 0x56, 0x78]
   \<and> get_T BDF_LITTLE_ENDIAN BDF_BIG_ENDIAN (d :: 32 word) [0x12, 0x34, 0x56, 0x78]
       = (None, 0x12345678, [])
   \<and> get_T BDF_LITTLE_ENDIAN BDF_LITTLE_ENDIAN (d :: 32 word) [0x12, 0x34, 0x56, 0x78]
       = (None, 0x78563412, [])"
  by (simp add: put_T_def put_T_body_def get_T_def Serializer_read_n_def stream_read_def
      Swapper_swap_def swapBytes_T_def swapBytes_def sizeof_def object_bytes_def
      object_value_def le_bytes_def std_swap_def Serializer_write_def stream_write_def upt_rec)

text \<open>
  Claim C6. For a scalar of more than one byte whose bytes in memory do not read the same
  in both directions, the bytes written under the little-endian tag differ from the bytes
  written under the big-endian tag.
\<close>

theorem cross_tag_distinct:
  assumes "supported TYPE('a::len)" and "1 < sizeof TYPE('a)"
    and "object_bytes sys (v :: 'a word) \<noteq> rev (object_bytes sys v)"
  shows "\<exists>l b. put_T sys BDF_LITTLE_ENDIAN v ss = Inr (ss @ l)
             \<and> put_T sys BDF_BIG_ENDIAN v ss = Inr (ss @ b) \<and> l \<noteq> b"
proof -
  have "wire_T sys BDF_LITTLE_ENDIAN v \<noteq> wire_T sys BDF_BIG_ENDIAN v"
    using assms(3) by (cases sys) (auto simp add: wire_T_def)
  then show ?thesis
    using put_T_wire [OF assms(1)] by blast
qed

theorem cross_tag_distinct_witness:
  "supported TYPE(16) \<and> 1 < sizeof TYPE(16)
   \<and> object_bytes BDF_LITTLE_ENDIAN (0x0102 :: 16 word) \<noteq> rev (object_bytes BDF_LITTLE_ENDIAN (0x0102 :: 16 word))
   \<and> put_T BDF_LITTLE_ENDIAN BDF_LITTLE_ENDIAN (0x0102 :: 16 word) [] \<noteq> put_T BDF_LITTLE_ENDIAN BDF_BIG_ENDIAN (0x0102 :: 16 word) []"
proof -
  have h: "supported TYPE(16)"
    by (simp add: supported_def)
  have s: "1 < sizeof TYPE(16)"
    by (simp add: sizeof_def)
  have n: "object_bytes BDF_LITTLE_ENDIAN (0x0102 :: 16 word)
             \<noteq> rev (object_bytes BDF_LITTLE_ENDIAN (0x0102 :: 16 word))"
    by (simp add: object_bytes_def sizeof_def le_bytes_def upt_rec)
  from cross_tag_distinct [OF h s n, of "[]"]
  have "put_T BDF_LITTLE_ENDIAN BDF_LITTLE_ENDIAN (0x0102 :: 16 word) []
          \<noteq> put_T BDF_LITTLE_ENDIAN BDF_BIG_ENDIAN (0x0102 :: 16 word) []"
    by auto
  with h s n show ?thesis by blast
qed

text \<open>The swap on memory reverses the object it is given and writes nowhere else.\<close>

lemma length_load: "length (load m p n) = n"
  by (simp add: load_def)

lemma load_cong:
  "(\<And>a. p \<le> a \<Longrightarrow> a < p + n \<Longrightarrow> m' a = m a) \<Longrightarrow> load m' p n = load m p n"
  by (simp add: load_def)

lemma load_mem_copy: "load (mem_copy m v x n) v n = load m x n"
  by (simp add: load_def mem_copy_def)

lemma mem_copy_outside: "a < v \<or> v + n \<le> a \<Longrightarrow> mem_copy m v x n a = m a"
  by (auto simp add: mem_copy_def)

lemma load_1: "load m p (Suc 0) = [m p]"
  by (simp add: load_def)

lemma load_2: "load m p 2 = [m p, m (p + 1)]"
  by (simp add: load_def upt_rec)

lemma load_4: "load m p 4 = [m p, m (p + 1), m (p + 2), m (p + 3)]"
  by (simp add: load_def upt_rec eval_nat_numeral)

lemma load_8:
  "load m p 8 = [m p, m (p + 1), m (p + 2), m (p + 3), m (p + 4), m (p + 5), m (p + 6), m (p + 7)]"
  by (simp add: load_def upt_rec eval_nat_numeral)

lemma mem_swapBytes_rev:
  assumes "nBytes \<in> {1, 2, 4, 8}"
  shows "\<exists>m'. mem_swapBytes nBytes src m = Some m'
            \<and> load m' src nBytes = rev (load m src nBytes)
            \<and> (\<forall>a. a < src \<or> src + nBytes \<le> a \<longrightarrow> m' a = m a)"
proof -
  consider "nBytes = 1" | "nBytes = 2" | "nBytes = 4" | "nBytes = 8"
    using assms by auto
  then show ?thesis
  proof cases
    case 1
    then show ?thesis by (simp add: mem_swapBytes_def load_1)
  next
    case 2
    then show ?thesis by (auto simp add: mem_swapBytes_def mem_std_swap_def load_2)
  next
    case 3
    then show ?thesis by (auto simp add: mem_swapBytes_def mem_std_swap_def load_4)
  next
    case 4
    then show ?thesis by (auto simp add: mem_swapBytes_def mem_std_swap_def load_8)
  qed
qed

lemma mem_swapBytes_agrees:
  assumes "nBytes \<in> {1, 2, 4, 8}" and "mem_swapBytes nBytes src m = Some m'"
  shows "swapBytes nBytes (load m src nBytes) = Some (load m' src nBytes)"
  using mem_swapBytes_rev [OF assms(1), of src m] assms(2)
    swapBytes_rev [OF length_load assms(1), of m src]
  by auto

lemma mem_Swapper_swap_frame:
  assumes "nBytes \<in> {1, 2, 4, 8}"
  shows "\<exists>m'. mem_Swapper_swap Enabled nBytes v m = Some m'
            \<and> load m' v nBytes = (if Enabled then rev (load m v nBytes) else load m v nBytes)
            \<and> (\<forall>a. a < v \<or> v + nBytes \<le> a \<longrightarrow> m' a = m a)"
  using mem_swapBytes_rev [OF assms, of v m]
  by (cases Enabled) (auto simp add: mem_Swapper_swap_def)

text \<open>
  Claim C8. Let the caller's scalar \<open>val\<close>, of a supported type, be the object at address
  \<open>x\<close>, and let the parameter object of \<^verbatim>\<open>operator << (T v)\<close> be at an address \<open>v\<close> that
  does not overlap it. Then the call \<^verbatim>\<open>s << x\<close> succeeds and appends the wire bytes of
  \<open>val\<close> (the bytes the value-level writer appends); afterwards the caller's object still
  holds \<open>val\<close>, whatever the host order and the tag, the parameter object holds the
  bytes that were written (the swapped ones when the tag is not the host order), and no
  byte of memory outside the parameter object has changed.
\<close>

theorem write_keeps_caller_value:
  assumes "supported TYPE('a::len)"
    and "load m x (sizeof TYPE('a)) = object_bytes sys (val :: 'a word)"
    and "x + sizeof TYPE('a) \<le> v \<or> v + sizeof TYPE('a) \<le> x"
  shows "\<exists>m'. mem_call_put_T sys Endian (sizeof TYPE('a)) x v m ss
                = Inr (m', ss @ wire_T sys Endian val)
            \<and> put_T sys Endian val ss = Inr (ss @ wire_T sys Endian val)
            \<and> load m' x (sizeof TYPE('a)) = object_bytes sys val
            \<and> load m' v (sizeof TYPE('a)) = wire_T sys Endian val
            \<and> (\<forall>a. a < v \<or> v + sizeof TYPE('a) \<le> a \<longrightarrow> m' a = m a)"
proof -
  let ?n = "sizeof TYPE('a)"
  let ?m1 = "mem_copy m v x ?n"
  have n: "?n \<in> {1, 2, 4, 8}"
    by (rule supported_sizeof [OF assms(1)])
  from mem_Swapper_swap_frame [OF n, of "Endian \<noteq> sys" v ?m1] obtain m' where
    sw: "mem_Swapper_swap (Endian \<noteq> sys) ?n v ?m1 = Some m'" and
    ld: "load m' v ?n = (if Endian \<noteq> sys then rev (load ?m1 v ?n) else load ?m1 v ?n)" and
    fr: "\<And>a. a < v \<or> v + ?n \<le> a \<Longrightarrow> m' a = ?m1 a"
    by blast
  have copy: "load ?m1 v ?n = object_bytes sys val"
    by (simp add: load_mem_copy assms(2))
  have par: "load m' v ?n = wire_T sys Endian val"
    using ld by (simp add: copy wire_T_def)
  have out: "m' a = m a" if "a < v \<or> v + ?n \<le> a" for a
    using fr [OF that] mem_copy_outside [OF that, of m x] by simp
  have own: "load m' x ?n = object_bytes sys val"
  proof -
    have "load m' x ?n = load m x ?n"
      using assms(3) by (intro load_cong out) auto
    then show ?thesis by (simp add: assms(2))
  qed
  have call: "mem_call_put_T sys Endian ?n x v m ss = Inr (m', ss @ wire_T sys Endian val)"
    by (simp add: mem_call_put_T_def mem_put_T_body_def sw par Serializer_write_def
        stream_write_def length_wire_T)
  from call put_T_wire [OF assms(1), of sys Endian val ss] own par out show ?thesis
    by blast
qed

theorem write_keeps_caller_value_witness:
  "supported TYPE(32)
   \<and> load ((\<lambda>a. 0)(0 := 0x78, 1 := 0x56, 2 := 0x34, 3 := 0x12)) 0 (sizeof TYPE(32))
       = object_bytes BDF_LITTLE_ENDIAN (0x12345678 :: 32 word)
   \<and> 0 + sizeof TYPE(32) \<le> (8 :: nat)
   \<and> (\<exists>m'. mem_call_put_T BDF_LITTLE_ENDIAN BDF_BIG_ENDIAN (sizeof TYPE(32)) 0 8
                ((\<lambda>a. 0)(0 := 0x78, 1 := 0x56, 2 := 0x34, 3 := 0x12)) []
              = Inr (m', [0x12, 0x34, 0x56, 0x78])
          \<and> load m' 0 (sizeof TYPE(32)) = [0x78, 0x56, 0x34, 0x12]
          \<and> load m' 8 (sizeof TYPE(32)) = [0x12, 0x34, 0x56, 0x78])"
proof -
  let ?m = "(\<lambda>a. 0)(0 := 0x78, 1 := 0x56, 2 := 0x34, 3 := 0x12) :: memory"
  have h1: "supported TYPE(32)"
    by (simp add: supported_def)
  have ob: "object_bytes BDF_LITTLE_ENDIAN (0x12345678 :: 32 word) = [0x78, 0x56, 0x34, 0x12]"
    by (simp add: object_bytes_def sizeof_def le_bytes_def upt_rec)
  have h2: "load ?m 0 (sizeof TYPE(32)) = object_bytes BDF_LITTLE_ENDIAN (0x12345678 :: 32 word)"
    by (simp add: ob) (simp add: load_def sizeof_def upt_rec)
  have h3: "0 + sizeof TYPE(32) \<le> (8 :: nat)"
    by (simp add: sizeof_def)
  have w: "wire_T BDF_LITTLE_ENDIAN BDF_BIG_ENDIAN (0x12345678 :: 32 word) = [0x12, 0x34, 0x56, 0x78]"
    by (simp add: wire_T_def ob)
  from write_keeps_caller_value [OF h1 h2 disjI1 [OF h3], of BDF_BIG_ENDIAN "[]"]
  obtain m' where
    "mem_call_put_T BDF_LITTLE_ENDIAN BDF_BIG_ENDIAN (sizeof TYPE(32)) 0 8 ?m []
       = Inr (m', [] @ wire_T BDF_LITTLE_ENDIAN BDF_BIG_ENDIAN (0x12345678 :: 32 word))"
    "load m' 0 (sizeof TYPE(32)) = object_bytes BDF_LITTLE_ENDIAN (0x12345678 :: 32 word)"
    "load m' 8 (sizeof TYPE(32)) = wire_T BDF_LITTLE_ENDIAN BDF_BIG_ENDIAN (0x12345678 :: 32 word)"
    by blast
  then have "\<exists>m'. mem_call_put_T BDF_LITTLE_ENDIAN BDF_BIG_ENDIAN (sizeof TYPE(32)) 0 8 ?m []
              = Inr (m', [0x12, 0x34, 0x56, 0x78])
          \<and> load m' 0 (sizeof TYPE(32)) = [0x78, 0x56, 0x34, 0x12]
          \<and> load m' 8 (sizeof TYPE(32)) = [0x12, 0x34, 0x56, 0x78]"
    by (simp add: w ob)
  with h1 h2 h3 show ?thesis
    by blast
qed

text \<open>
  The body changes the object whose address it is given: run on the caller's own object,
  as a reference parameter would have it, it leaves the swapped bytes there.
\<close>

lemma body_swaps_the_object_it_is_given:
  "(case mem_put_T_body BDF_LITTLE_ENDIAN BDF_BIG_ENDIAN 4 0
           ((\<lambda>a. 0)(0 := 0x78, 1 := 0x56, 2 := 0x34, 3 := 0x12)) [] of
      Inl err \<Rightarrow> False
    | Inr (m', ss') \<Rightarrow>
        load m' 0 4 = [0x12, 0x34, 0x56, 0x78] \<and> ss' = [0x12, 0x34, 0x56, 0x78])"
  by (simp add: mem_put_T_body_def mem_Swapper_swap_def mem_swapBytes_def mem_std_swap_def
      load_4 Serializer_write_def stream_write_def)

text \<open>The callee's copy is the value that is swapped.\<close>

lemma put_T_body_swaps_copy:
  "put_T_body BDF_LITTLE_ENDIAN BDF_BIG_ENDIAN (0x12345678 :: 32 word) []
     = Inr (0x78563412, [0x12, 0x34, 0x56, 0x78])"
  by (simp add: put_T_body_def Swapper_swap_def swapBytes_T_def swapBytes_def
        sizeof_def object_bytes_def object_value_def le_bytes_def std_swap_def
        Serializer_write_def stream_write_def upt_rec)

section \<open>The claims about strings\<close>

lemma put_size_wire:
  "put_T sys Endian (n :: size_t) ss = Inr (ss @ wire_T sys Endian n)"
  by (rule put_T_wire [OF supported_size_t])

lemma get_size_wire:
  "get_T sys Endian d (wire_T sys Endian (n :: size_t) @ rest) = (None, n, rest)"
  by (rule get_T_wire [OF supported_size_t])

lemma strlen_terminated:
  "0 \<notin> set s \<Longrightarrow> strlen (s @ 0 # junk) = Some (length s)"
  by (induction s) auto

lemma put_string_wire:
  "put_string sys Endian str ss
     = Inr (ss @ wire_T sys Endian (of_nat (length str) :: size_t) @ str)"
  by (simp add: put_string_def put_size_wire Serializer_write_def stream_write_def)

lemma get_string_wire:
  assumes "str \<noteq> []" and "length str < 2 ^ 64"
  shows "get_string sys Endian d (wire_T sys Endian (of_nat (length str) :: size_t) @ str @ rest)
           = (None, str, rest)"
  using assms
  by (simp add: get_string_def get_size_wire unat_size Serializer_read_n_def stream_read_def
      store_def resize_def)

lemma round_trips_string:
  assumes "str \<noteq> []" and "length str < 2 ^ 64"
  shows "round_trips (put_string sys Endian) (get_string sys Endian) str"
  unfolding round_trips_def
  using put_string_wire [of sys Endian str] get_string_wire [OF assms, of sys Endian]
  by (intro exI [of _ "wire_T sys Endian (of_nat (length str) :: size_t) @ str"]) simp

lemma le_bytes_zero: "le_bytes n (0 :: 'a::len word) = replicate n 0"
  by (simp add: le_bytes_def map_replicate_const)

lemma wire_T_zero: "wire_T sys Endian (0 :: size_t) = replicate 8 0"
  by (cases sys) (simp_all add: wire_T_def object_bytes_def le_bytes_zero sizeof_size_t)

text \<open>
  Claim C2, at the empty string. Writing the empty \<^verbatim>\<open>std::string\<close> appends the count 0
  (eight null bytes) and nothing else. Reading a \<^verbatim>\<open>std::string\<close> from these bytes reads
  the count, resizes the destination to 0 and calls \<^verbatim>\<open>read(&str[0], 0)\<close>, whose
  \<^verbatim>\<open>assert(n>0)\<close> fails: the decode ends in the assertion instead of returning the
  empty string.
\<close>

theorem empty_string_decode_asserts:
  "put_string sys Endian [] ss = Inr (ss @ replicate 8 0)
   \<and> get_string sys Endian d (replicate 8 0 @ rest) = (Some Assertion_failed, [], rest)"
proof
  show "put_string sys Endian [] ss = Inr (ss @ replicate 8 0)"
    by (simp add: put_string_wire wire_T_zero)
  have "get_T sys Endian (0 :: size_t) (replicate 8 0 @ rest) = (None, 0, rest)"
    using get_size_wire [of sys Endian 0 0 rest] by (simp only: wire_T_zero)
  then show "get_string sys Endian d (replicate 8 0 @ rest) = (Some Assertion_failed, [], rest)"
    by (simp add: get_string_def Serializer_read_n_def resize_def)
qed

text \<open>
  The raw-buffer reader \<^verbatim>\<open>read(char *)\<close> accepts the same bytes, and every string that
  is not empty round-trips, embedded null bytes included.
\<close>

lemma raw_read_accepts_empty:
  "Serializer_read sys Endian buf (replicate 8 0 @ rest) = (None, (0, buf), rest)"
proof -
  have "get_T sys Endian (0 :: size_t) (replicate 8 0 @ rest) = (None, 0, rest)"
    using get_size_wire [of sys Endian 0 0 rest] by (simp only: wire_T_zero)
  then show ?thesis
    by (simp add: Serializer_read_def stream_read_def store_def)
qed

lemma string_with_null_round_trip:
  "get_string BDF_LITTLE_ENDIAN BDF_BIG_ENDIAN d [0, 0, 0, 0, 0, 0, 0, 3, 0x61, 0, 0x62, 0x63]
     = (None, [0x61, 0, 0x62], [0x63])"
  by (simp add: get_string_def get_T_def Serializer_read_n_def stream_read_def
      Swapper_swap_def swapBytes_T_def swapBytes_def sizeof_def object_bytes_def
      object_value_def le_bytes_def std_swap_def store_def resize_def upt_rec)

text \<open>
  Claim C9. For a byte string \<open>s\<close> without a null byte, held in memory as \<open>s\<close>, the
  terminator and whatever follows it, the \<^verbatim>\<open>const char *\<close> writer produces what the
  \<^verbatim>\<open>std::string\<close> writer produces for \<open>s\<close>: the count of \<open>s\<close> as a \<^verbatim>\<open>size_t\<close> under
  the serializer's tag and then the bytes of \<open>s\<close>, with no terminator.
\<close>

theorem cstr_agrees_with_string:
  assumes "0 \<notin> set s"
  shows "put_cstr sys Endian (s @ 0 # junk) ss = put_string sys Endian s ss
         \<and> put_string sys Endian s ss
             = Inr (ss @ wire_T sys Endian (of_nat (length s) :: size_t) @ s)"
  by (simp add: put_cstr_def strlen_terminated [OF assms] put_string_wire put_size_wire
      Serializer_write_def stream_write_def)

theorem cstr_agrees_with_string_witness:
  "0 \<notin> set [0x68, 0x69 :: byte]
   \<and> put_cstr BDF_LITTLE_ENDIAN BDF_BIG_ENDIAN ([0x68, 0x69] @ 0 # [0x7A]) []
       = put_string BDF_LITTLE_ENDIAN BDF_BIG_ENDIAN [0x68, 0x69] []
   \<and> put_cstr BDF_LITTLE_ENDIAN BDF_BIG_ENDIAN ([0x68, 0x69] @ 0 # [0x7A]) []
       = Inr [0, 0, 0, 0, 0, 0, 0, 2, 0x68, 0x69]"
proof -
  have h: "0 \<notin> set [0x68, 0x69 :: byte]"
    by simp
  have w: "put_string BDF_LITTLE_ENDIAN BDF_BIG_ENDIAN [0x68, 0x69] []
             = Inr [0, 0, 0, 0, 0, 0, 0, 2, 0x68, 0x69]"
    by (simp add: put_string_def put_T_def put_T_body_def Swapper_swap_def swapBytes_T_def
        swapBytes_def sizeof_def object_bytes_def object_value_def le_bytes_def std_swap_def
        Serializer_write_def stream_write_def upt_rec)
  from cstr_agrees_with_string [OF h, of BDF_LITTLE_ENDIAN BDF_BIG_ENDIAN "[0x7A]" "[]"] w h
  show ?thesis by simp
qed

section \<open>The claims about vectors and maps\<close>

lemma round_trips_pair:
  assumes "round_trips put1 get1 a" and "round_trips put2 get2 b"
  shows "round_trips (put_pair put1 put2) (get_pair get1 get2) (a, b)"
proof -
  from assms(1) obtain ba where
    pa: "\<And>ss. put1 a ss = Inr (ss @ ba)" and ga: "\<And>d rest. get1 d (ba @ rest) = (None, a, rest)"
    unfolding round_trips_def by blast
  from assms(2) obtain bb where
    pb: "\<And>ss. put2 b ss = Inr (ss @ bb)" and gb: "\<And>d rest. get2 d (bb @ rest) = (None, b, rest)"
    unfolding round_trips_def by blast
  have "\<And>ss. put_pair put1 put2 (a, b) ss = Inr (ss @ (ba @ bb))"
    by (simp add: put_pair_def pa pb)
  moreover have "\<And>d rest. get_pair get1 get2 d ((ba @ bb) @ rest) = (None, (a, b), rest)"
    by (simp add: get_pair_def ga gb)
  ultimately show ?thesis
    unfolding round_trips_def by blast
qed

lemma take_Suc_update: "i < length vv \<Longrightarrow> take (Suc i) (vv[i := x]) = take i vv @ [x]"
  by (simp add: take_Suc_conv_app_nth)

lemma vector_loop_round_trip:
  assumes "\<forall>x\<in>set xs. round_trips put get x"
  shows "\<exists>bs. (\<forall>ss. put_each put xs ss = Inr (ss @ bs))
            \<and> (\<forall>i vv rest. i + length xs = length vv \<longrightarrow>
                  get_vector_loop get i (length vv) vv (bs @ rest) = (None, take i vv @ xs, rest))"
  using assms
proof (induction xs)
  case Nil
  have "\<forall>i vv rest. i + length ([] :: 'a list) = length vv \<longrightarrow>
          get_vector_loop get i (length vv) vv ([] @ rest) = (None, take i vv @ [], rest)"
    by (simp add: get_vector_loop.simps)
  then show ?case
    by (intro exI [of _ "[]"]) simp
next
  case (Cons x xs)
  from Cons.prems obtain bx where
    px: "\<And>ss. put x ss = Inr (ss @ bx)" and gx: "\<And>d rest. get d (bx @ rest) = (None, x, rest)"
    unfolding round_trips_def by auto
  from Cons obtain bs where
    ps: "\<And>ss. put_each put xs ss = Inr (ss @ bs)" and
    gs: "\<And>i vv rest. i + length xs = length vv \<Longrightarrow>
           get_vector_loop get i (length vv) vv (bs @ rest) = (None, take i vv @ xs, rest)"
    by auto
  have p: "\<And>ss. put_each put (x # xs) ss = Inr (ss @ (bx @ bs))"
    by (simp add: px ps)
  have g: "get_vector_loop get i (length vv) vv ((bx @ bs) @ rest) = (None, take i vv @ x # xs, rest)"
    if len: "i + length (x # xs) = length vv" for i vv rest
  proof -
    have lt: "i < length vv"
      using len by simp
    have "get_vector_loop get i (length vv) vv ((bx @ bs) @ rest)
            = get_vector_loop get (Suc i) (length (vv[i := x])) (vv[i := x]) (bs @ rest)"
      using lt by (subst get_vector_loop.simps) (simp add: gx)
    also have "\<dots> = (None, take (Suc i) (vv[i := x]) @ xs, rest)"
      using len by (intro gs) simp
    finally show ?thesis
      using lt by (simp add: take_Suc_update)
  qed
  from p g show ?case
    by (intro exI [of _ "bx @ bs"]) blast
qed

lemma length_resize: "length (resize n c xs) = n"
  by (simp add: resize_def)

lemma round_trips_vector:
  assumes "length vv < 2 ^ 64" and "\<forall>x\<in>set vv. round_trips put get x"
  shows "round_trips (put_vector put sys Endian) (get_vector get T0 sys Endian) vv"
proof -
  from vector_loop_round_trip [OF assms(2)] obtain bs where
    ps: "\<And>ss. put_each put vv ss = Inr (ss @ bs)" and
    gs: "\<And>i ww rest. i + length vv = length ww \<Longrightarrow>
           get_vector_loop get i (length ww) ww (bs @ rest) = (None, take i ww @ vv, rest)"
    by blast
  let ?w = "wire_T sys Endian (of_nat (length vv) :: size_t)"
  have p: "\<And>ss. put_vector put sys Endian vv ss = Inr (ss @ (?w @ bs))"
    by (simp add: put_vector_def put_size_wire ps)
  have g: "get_vector get T0 sys Endian d ((?w @ bs) @ rest) = (None, vv, rest)" for d rest
  proof -
    let ?ww = "resize (length vv) T0 []"
    have "get_vector_loop get 0 (length ?ww) ?ww (bs @ rest) = (None, take 0 ?ww @ vv, rest)"
      by (rule gs) (simp add: length_resize)
    then show ?thesis
      using assms(1) by (simp add: get_vector_def get_size_wire unat_size length_resize)
  qed
  from p g show ?thesis
    unfolding round_trips_def by blast
qed

lemma map_loop_entries:
  assumes "\<forall>x\<in>set xs. round_trips (put_pair put1 put2) (get_pair get1 get2) x"
  shows "\<exists>bs. (\<forall>ss. put_each (put_pair put1 put2) xs ss = Inr (ss @ bs))
            \<and> (\<forall>i mm p rest.
                  get_map_loop get1 get2 i (i + length xs) mm p (bs @ rest)
                    = (None, foldl assign_entry mm xs, rest))"
  using assms
proof (induction xs)
  case Nil
  have "\<forall>i mm p rest. get_map_loop get1 get2 i (i + length ([] :: ('a \<times> 'b) list)) mm p ([] @ rest)
          = (None, foldl assign_entry mm [], rest)"
    by (simp add: get_map_loop.simps)
  then show ?case
    by (intro exI [of _ "[]"]) simp
next
  case (Cons x xs)
  from Cons.prems obtain bx where
    px: "\<And>ss. put_pair put1 put2 x ss = Inr (ss @ bx)" and
    gx: "\<And>d rest. get_pair get1 get2 d (bx @ rest) = (None, x, rest)"
    unfolding round_trips_def by auto
  from Cons obtain bs where
    ps: "\<And>ss. put_each (put_pair put1 put2) xs ss = Inr (ss @ bs)" and
    gs: "\<And>i mm p rest. get_map_loop get1 get2 i (i + length xs) mm p (bs @ rest)
           = (None, foldl assign_entry mm xs, rest)"
    by auto
  have p: "\<And>ss. put_each (put_pair put1 put2) (x # xs) ss = Inr (ss @ (bx @ bs))"
    by (simp add: px ps)
  have g: "get_map_loop get1 get2 i (i + length (x # xs)) mm p ((bx @ bs) @ rest)
             = (None, foldl assign_entry mm (x # xs), rest)" for i mm p rest
  proof -
    have "get_map_loop get1 get2 i (i + length (x # xs)) mm p ((bx @ bs) @ rest)
            = get_map_loop get1 get2 (Suc i) (Suc i + length xs) (assign_entry mm x) x (bs @ rest)"
      by (subst get_map_loop.simps) (simp add: gx)
    also have "\<dots> = (None, foldl assign_entry (assign_entry mm x) xs, rest)"
      by (rule gs)
    finally show ?thesis
      by simp
  qed
  from p g show ?case
    by (intro exI [of _ "bx @ bs"]) blast
qed

lemma map_assign_last:
  "\<forall>k'\<in>fst ` set mm. k' < k \<Longrightarrow> map_assign k v mm = mm @ [(k, v)]"
  by (induction mm) auto

lemma foldl_assign_sorted:
  "sorted_wrt (<) (map fst (mm @ xs)) \<Longrightarrow> foldl assign_entry mm xs = mm @ xs"
proof (induction xs arbitrary: mm)
  case Nil
  show ?case by simp
next
  case (Cons x xs)
  have lt: "\<forall>k'\<in>fst ` set mm. k' < fst x"
    using Cons.prems by (auto simp add: sorted_wrt_append)
  have "assign_entry mm x = mm @ [x]"
    using map_assign_last [OF lt, of "snd x"] by simp
  moreover have "foldl assign_entry (mm @ [x]) xs = (mm @ [x]) @ xs"
    using Cons.prems by (intro Cons.IH) simp
  ultimately show ?case by simp
qed

lemma round_trips_map:
  assumes "length mm < 2 ^ 64" and "sorted_wrt (<) (map fst mm)"
    and "\<forall>x\<in>set mm. round_trips put1 get1 (fst x) \<and> round_trips put2 get2 (snd x)"
  shows "round_trips (put_map put1 put2 sys Endian) (get_map get1 get2 p0 sys Endian) mm"
proof -
  have "\<forall>x\<in>set mm. round_trips (put_pair put1 put2) (get_pair get1 get2) x"
    using assms(3) round_trips_pair [of put1 get1 _ put2 get2] by (metis prod.collapse)
  from map_loop_entries [OF this] obtain bs where
    ps: "\<And>ss. put_each (put_pair put1 put2) mm ss = Inr (ss @ bs)" and
    gs: "\<And>i m p rest. get_map_loop get1 get2 i (i + length mm) m p (bs @ rest)
           = (None, foldl assign_entry m mm, rest)"
    by blast
  let ?w = "wire_T sys Endian (of_nat (length mm) :: size_t)"
  have p: "\<And>ss. put_map put1 put2 sys Endian mm ss = Inr (ss @ (?w @ bs))"
    by (simp add: put_map_def put_size_wire ps)
  have f: "foldl assign_entry [] mm = mm"
    using foldl_assign_sorted [of "[]" mm] assms(2) by simp
  have g: "get_map get1 get2 p0 sys Endian d ((?w @ bs) @ rest) = (None, mm, rest)" for d rest
    using assms(1) gs [of 0 "[]" p0 rest]
    by (simp add: get_map_def get_size_wire unat_size f)
  from p g show ?thesis
    unfolding round_trips_def by blast
qed

lemma get_T_enough:
  assumes "supported TYPE('a::len)" and "sizeof TYPE('a) \<le> length ss"
  shows "\<exists>v. \<forall>d. get_T sys Endian (d :: 'a word) ss = (None, v, drop (sizeof TYPE('a)) ss)"
proof -
  have pos: "0 < sizeof TYPE('a)"
    using supported_sizeof [OF assms(1)] by auto
  have rd: "Serializer_read_n (sizeof TYPE('a)) ss
              = Inr (take (sizeof TYPE('a)) ss, drop (sizeof TYPE('a)) ss)"
    using pos assms(2) by (simp add: Serializer_read_n_def stream_read_def)
  show ?thesis
    by (simp add: get_T_def rd Swapper_swap_supported [OF assms(1)])
qed

lemma get_T_short:
  assumes "supported TYPE('a::len)" and "length ss < sizeof TYPE('a)"
  shows "get_T sys Endian (d :: 'a word) ss = (Some Stream_fault, d, ss)"
  using assms(2) by (simp add: get_T_def Serializer_read_n_def stream_read_def)

lemma short_stream_keeps_destination:
  assumes "length ss < 8"
  shows "get_vector get T0 sys Endian vv ss = (Some Stream_fault, vv, ss)"
    and "get_map get1 get2 p0 sys Endian mm ss = (Some Stream_fault, mm, ss)"
  using assms
  by (simp_all add: get_vector_def get_map_def get_T_short [OF supported_size_t] sizeof_size_t)

text \<open>
  The container operators themselves. A vector whose elements round-trip through the element writer and reader, and
  a map (entries in strict key order) whose keys and values do, the empty ones included,
  are written as a count and the elements in order, and reading these bytes with the same
  tag into any destination gives the same vector (same count, same elements, same order),
  respectively the same map (same entries), and leaves the data that follows.
\<close>

lemma container_round_trip:
  "(length vv < 2 ^ 64 \<and> (\<forall>x\<in>set vv. round_trips put get x) \<longrightarrow>
      (\<exists>bs. put_vector put sys Endian vv ss = Inr (ss @ bs)
           \<and> get_vector get T0 sys Endian vv0 (bs @ rest) = (None, vv, rest)))
   \<and> (length mm < 2 ^ 64 \<and> sorted_wrt (<) (map fst mm)
        \<and> (\<forall>x\<in>set mm. round_trips put1 get1 (fst x) \<and> round_trips put2 get2 (snd x)) \<longrightarrow>
      (\<exists>bs. put_map put1 put2 sys Endian mm ss = Inr (ss @ bs)
           \<and> get_map get1 get2 p0 sys Endian mm0 (bs @ rest) = (None, mm, rest)))"
proof (intro conjI impI)
  assume "length vv < 2 ^ 64 \<and> (\<forall>x\<in>set vv. round_trips put get x)"
  then have "round_trips (put_vector put sys Endian) (get_vector get T0 sys Endian) vv"
    by (intro round_trips_vector) simp_all
  then show "\<exists>bs. put_vector put sys Endian vv ss = Inr (ss @ bs)
           \<and> get_vector get T0 sys Endian vv0 (bs @ rest) = (None, vv, rest)"
    unfolding round_trips_def by blast
next
  assume "length mm < 2 ^ 64 \<and> sorted_wrt (<) (map fst mm)
        \<and> (\<forall>x\<in>set mm. round_trips put1 get1 (fst x) \<and> round_trips put2 get2 (snd x))"
  then have "round_trips (put_map put1 put2 sys Endian) (get_map get1 get2 p0 sys Endian) mm"
    by (intro round_trips_map) simp_all
  then show "\<exists>bs. put_map put1 put2 sys Endian mm ss = Inr (ss @ bs)
           \<and> get_map get1 get2 p0 sys Endian mm0 (bs @ rest) = (None, mm, rest)"
    unfolding round_trips_def by blast
qed

lemma container_round_trip_example:
  "length [0x0102, 0x0304 :: 16 word] < 2 ^ 64
   \<and> round_trips (put_T BDF_LITTLE_ENDIAN BDF_BIG_ENDIAN) (get_T BDF_LITTLE_ENDIAN BDF_BIG_ENDIAN)
         (0x0102 :: 16 word)
   \<and> round_trips (put_T BDF_LITTLE_ENDIAN BDF_BIG_ENDIAN) (get_T BDF_LITTLE_ENDIAN BDF_BIG_ENDIAN)
         (0x0304 :: 16 word)
   \<and> get_vector (get_T BDF_LITTLE_ENDIAN BDF_BIG_ENDIAN) 0 BDF_LITTLE_ENDIAN BDF_BIG_ENDIAN
        [9, 9, 9 :: 16 word] [0, 0, 0, 0, 0, 0, 0, 2, 1, 2, 3, 4, 0x55]
       = (None, [0x0102, 0x0304], [0x55])
   \<and> length [(1 :: byte, 0xAABB :: 16 word), (2, 0xCCDD)] < 2 ^ 64
   \<and> sorted_wrt (<) (map fst [(1 :: byte, 0xAABB :: 16 word), (2, 0xCCDD)])
   \<and> round_trips (put_T BDF_LITTLE_ENDIAN BDF_BIG_ENDIAN) (get_T BDF_LITTLE_ENDIAN BDF_BIG_ENDIAN)
         (1 :: byte)
   \<and> round_trips (put_T BDF_LITTLE_ENDIAN BDF_BIG_ENDIAN) (get_T BDF_LITTLE_ENDIAN BDF_BIG_ENDIAN)
         (2 :: byte)
   \<and> round_trips (put_T BDF_LITTLE_ENDIAN BDF_BIG_ENDIAN) (get_T BDF_LITTLE_ENDIAN BDF_BIG_ENDIAN)
         (0xAABB :: 16 word)
   \<and> round_trips (put_T BDF_LITTLE_ENDIAN BDF_BIG_ENDIAN) (get_T BDF_LITTLE_ENDIAN BDF_BIG_ENDIAN)
         (0xCCDD :: 16 word)
   \<and> get_map (get_T BDF_LITTLE_ENDIAN BDF_BIG_ENDIAN) (get_T BDF_LITTLE_ENDIAN BDF_BIG_ENDIAN) (0, 0)
        BDF_LITTLE_ENDIAN BDF_BIG_ENDIAN [(3 :: byte, 0x7777 :: 16 word)]
        [0, 0, 0, 0, 0, 0, 0, 2, 1, 0xAA, 0xBB, 2, 0xCC, 0xDD]
       = (None, [(1, 0xAABB), (2, 0xCCDD)], [])
   \<and> get_vector (get_T BDF_LITTLE_ENDIAN BDF_BIG_ENDIAN) 0 BDF_LITTLE_ENDIAN BDF_BIG_ENDIAN
        [9, 9, 9 :: 16 word] [0, 0, 0, 0, 0, 0, 0, 0]
       = (None, [], [])"
proof -
  let ?L = BDF_LITTLE_ENDIAN and ?B = BDF_BIG_ENDIAN
  let ?vv = "[0x0102, 0x0304 :: 16 word]"
  let ?mm = "[(1 :: byte, 0xAABB :: 16 word), (2, 0xCCDD)]"
  have s16: "supported TYPE(16)" and s8: "supported TYPE(8)"
    by (simp_all add: supported_def)
  have h1: "length ?vv < 2 ^ 64"
    by simp
  have h2: "\<forall>x\<in>set ?vv. round_trips (put_T ?L ?B) (get_T ?L ?B) x"
    using round_trips_T [OF s16] by blast
  have h3: "length ?mm < 2 ^ 64"
    by simp
  have h4: "sorted_wrt (<) (map fst ?mm)"
    by simp
  have h5: "\<forall>x\<in>set ?mm. round_trips (put_T ?L ?B) (get_T ?L ?B) (fst x)
              \<and> round_trips (put_T ?L ?B) (get_T ?L ?B) (snd x)"
    using round_trips_T [OF s16] round_trips_T [OF s8] by blast
  have h0: "length ([] :: 16 word list) < 2 ^ 64
            \<and> (\<forall>x\<in>set ([] :: 16 word list). round_trips (put_T ?L ?B) (get_T ?L ?B) x)"
    by simp
  have p1: "put_vector (put_T ?L ?B) ?L ?B ?vv [] = Inr [0, 0, 0, 0, 0, 0, 0, 2, 1, 2, 3, 4]"
    by (simp add: eval_put)
  have p2: "put_map (put_T ?L ?B) (put_T ?L ?B) ?L ?B ?mm []
              = Inr [0, 0, 0, 0, 0, 0, 0, 2, 1, 0xAA, 0xBB, 2, 0xCC, 0xDD]"
    by (simp add: eval_put)
  have p3: "put_vector (put_T ?L ?B) ?L ?B ([] :: 16 word list) [] = Inr [0, 0, 0, 0, 0, 0, 0, 0]"
    by (simp add: eval_put)
  have "\<exists>bs. put_vector (put_T ?L ?B) ?L ?B ?vv [] = Inr ([] @ bs)
          \<and> get_vector (get_T ?L ?B) 0 ?L ?B [9, 9, 9] (bs @ [0x55]) = (None, ?vv, [0x55])"
    by (rule container_round_trip [THEN conjunct1, THEN mp, OF conjI [OF h1 h2]])
  with p1 have g1: "get_vector (get_T ?L ?B) 0 ?L ?B [9, 9, 9 :: 16 word]
              [0, 0, 0, 0, 0, 0, 0, 2, 1, 2, 3, 4, 0x55] = (None, ?vv, [0x55])"
    by auto
  have "\<exists>bs. put_map (put_T ?L ?B) (put_T ?L ?B) ?L ?B ?mm [] = Inr ([] @ bs)
          \<and> get_map (get_T ?L ?B) (get_T ?L ?B) (0, 0) ?L ?B [(3, 0x7777)] (bs @ [])
              = (None, ?mm, [])"
    by (rule container_round_trip [THEN conjunct2, THEN mp, OF conjI [OF h3 conjI [OF h4 h5]]])
  with p2 have g2: "get_map (get_T ?L ?B) (get_T ?L ?B) (0, 0) ?L ?B
              [(3 :: byte, 0x7777 :: 16 word)]
              [0, 0, 0, 0, 0, 0, 0, 2, 1, 0xAA, 0xBB, 2, 0xCC, 0xDD] = (None, ?mm, [])"
    by auto
  have "\<exists>bs. put_vector (put_T ?L ?B) ?L ?B ([] :: 16 word list) [] = Inr ([] @ bs)
          \<and> get_vector (get_T ?L ?B) 0 ?L ?B [9, 9, 9 :: 16 word] (bs @ []) = (None, [], [])"
    by (rule container_round_trip [THEN conjunct1, THEN mp, OF h0])
  with p3 have g3: "get_vector (get_T ?L ?B) 0 ?L ?B [9, 9, 9 :: 16 word]
              [0, 0, 0, 0, 0, 0, 0, 0] = (None, [], [])"
    by auto
  from h1 h3 h4 g1 g2 g3 round_trips_T [OF s16, of ?L ?B] round_trips_T [OF s8, of ?L ?B]
  show ?thesis
    by blast
qed

text \<open>
  The overwrite itself. For a key \<open>k\<close> and values \<open>v1\<close>, \<open>v2\<close> that round-trip: the count 2 followed
  by the pair \<open>(k, v1)\<close> and the pair \<open>(k, v2)\<close> is read by the map reader as the map
  with the single entry \<open>k \<mapsto> v2\<close>.
\<close>

lemma duplicate_key_last_wins:
  assumes "round_trips put1 get1 k" and "round_trips put2 get2 v1" and "round_trips put2 get2 v2"
  shows "\<exists>bs. (case put_T sys Endian (2 :: size_t) ss of
                 Inl err \<Rightarrow> Inl err
               | Inr ss1 \<Rightarrow> put_each (put_pair put1 put2) [(k, v1), (k, v2)] ss1) = Inr (ss @ bs)
            \<and> get_map get1 get2 p0 sys Endian mm0 (bs @ rest) = (None, [(k, v2)], rest)"
proof -
  let ?xs = "[(k, v1), (k, v2)]"
  have "\<forall>x\<in>set ?xs. round_trips (put_pair put1 put2) (get_pair get1 get2) x"
    using assms by (simp add: round_trips_pair)
  from map_loop_entries [OF this] obtain bs where
    ps: "\<And>ss. put_each (put_pair put1 put2) ?xs ss = Inr (ss @ bs)" and
    gs: "\<And>i m p rest. get_map_loop get1 get2 i (i + length ?xs) m p (bs @ rest)
           = (None, foldl assign_entry m ?xs, rest)"
    by blast
  let ?w = "wire_T sys Endian (2 :: size_t)"
  have p: "(case put_T sys Endian (2 :: size_t) ss of
              Inl err \<Rightarrow> Inl err
            | Inr ss1 \<Rightarrow> put_each (put_pair put1 put2) ?xs ss1) = Inr (ss @ (?w @ bs))"
    by (simp only: put_size_wire sum.case ps append_assoc)
  have g: "get_map get1 get2 p0 sys Endian mm0 ((?w @ bs) @ rest) = (None, [(k, v2)], rest)"
  proof -
    have l: "0 + length ?xs = 2"
      by simp
    show ?thesis
      using gs [of 0 "[]" p0 rest] unfolding l
      by (simp add: get_map_def get_size_wire)
  qed
  from p g show ?thesis by blast
qed

lemma duplicate_key_last_wins_example:
  "round_trips (put_T BDF_LITTLE_ENDIAN BDF_BIG_ENDIAN) (get_T BDF_LITTLE_ENDIAN BDF_BIG_ENDIAN) (7 :: byte)
   \<and> round_trips (put_T BDF_LITTLE_ENDIAN BDF_BIG_ENDIAN) (get_T BDF_LITTLE_ENDIAN BDF_BIG_ENDIAN) (0x1111 :: 16 word)
   \<and> round_trips (put_T BDF_LITTLE_ENDIAN BDF_BIG_ENDIAN) (get_T BDF_LITTLE_ENDIAN BDF_BIG_ENDIAN) (0x2223 :: 16 word)
   \<and> get_map (get_T BDF_LITTLE_ENDIAN BDF_BIG_ENDIAN) (get_T BDF_LITTLE_ENDIAN BDF_BIG_ENDIAN) (0, 0)
        BDF_LITTLE_ENDIAN BDF_BIG_ENDIAN [(1 :: byte, 5 :: 16 word)]
        [0, 0, 0, 0, 0, 0, 0, 2, 7, 0x11, 0x11, 7, 0x22, 0x23]
       = (None, [(7, 0x2223)], [])"
proof -
  let ?L = BDF_LITTLE_ENDIAN and ?B = BDF_BIG_ENDIAN
  have s16: "supported TYPE(16)" and s8: "supported TYPE(8)"
    by (simp_all add: supported_def)
  have h1: "round_trips (put_T ?L ?B) (get_T ?L ?B) (7 :: byte)"
    by (rule round_trips_T [OF s8])
  have h2: "round_trips (put_T ?L ?B) (get_T ?L ?B) (0x1111 :: 16 word)"
    by (rule round_trips_T [OF s16])
  have h3: "round_trips (put_T ?L ?B) (get_T ?L ?B) (0x2223 :: 16 word)"
    by (rule round_trips_T [OF s16])
  have p: "(case put_T ?L ?B (2 :: size_t) [] of
              Inl err \<Rightarrow> Inl err
            | Inr ss1 \<Rightarrow> put_each (put_pair (put_T ?L ?B) (put_T ?L ?B))
                [(7 :: byte, 0x1111 :: 16 word), (7, 0x2223)] ss1)
           = Inr [0, 0, 0, 0, 0, 0, 0, 2, 7, 0x11, 0x11, 7, 0x22, 0x23]"
    by (simp add: eval_put)
  have "\<exists>bs. (case put_T ?L ?B (2 :: size_t) [] of
                 Inl err \<Rightarrow> Inl err
               | Inr ss1 \<Rightarrow> put_each (put_pair (put_T ?L ?B) (put_T ?L ?B))
                   [(7 :: byte, 0x1111 :: 16 word), (7, 0x2223)] ss1) = Inr ([] @ bs)
            \<and> get_map (get_T ?L ?B) (get_T ?L ?B) (0, 0) ?L ?B [(1 :: byte, 5 :: 16 word)] (bs @ [])
                = (None, [(7, 0x2223)], [])"
    by (rule duplicate_key_last_wins [OF h1 h2 h3])
  with p have "get_map (get_T ?L ?B) (get_T ?L ?B) (0, 0) ?L ?B [(1 :: byte, 5 :: 16 word)]
        [0, 0, 0, 0, 0, 0, 0, 2, 7, 0x11, 0x11, 7, 0x22, 0x23] = (None, [(7, 0x2223)], [])"
    by auto
  with h1 h2 h3 show ?thesis by blast
qed

text \<open>
  Claim C3, at a map from bytes to strings with \<open>k = 7\<close>, \<open>v1 = "a"\<close> and \<open>v2\<close> the empty
  string. The count 2 and the two pairs are written. Reading a map from these bytes
  assigns \<open>7 \<mapsto> "a"\<close>, then reads the second pair, whose value has the count 0: the
  string reader calls \<^verbatim>\<open>read(&str[0], 0)\<close>, the assertion \<^verbatim>\<open>n>0\<close> fails, and the map is
  left with \<open>7 \<mapsto> "a"\<close> instead of \<open>7 \<mapsto> v2\<close>.
\<close>

theorem duplicate_key_empty_value_asserts:
  "(case put_T BDF_LITTLE_ENDIAN BDF_LITTLE_ENDIAN (2 :: size_t) [] of
      Inl err \<Rightarrow> Inl err
    | Inr ss1 \<Rightarrow>
        put_each (put_pair (put_T BDF_LITTLE_ENDIAN BDF_LITTLE_ENDIAN)
                           (put_string BDF_LITTLE_ENDIAN BDF_LITTLE_ENDIAN))
          [(7 :: byte, [0x61]), (7, [])] ss1)
     = Inr [2, 0, 0, 0, 0, 0, 0, 0,
            7, 1, 0, 0, 0, 0, 0, 0, 0, 0x61,
            7, 0, 0, 0, 0, 0, 0, 0, 0]
   \<and> get_map (get_T BDF_LITTLE_ENDIAN BDF_LITTLE_ENDIAN)
        (get_string BDF_LITTLE_ENDIAN BDF_LITTLE_ENDIAN) (0 :: byte, [])
        BDF_LITTLE_ENDIAN BDF_LITTLE_ENDIAN mm0
        [2, 0, 0, 0, 0, 0, 0, 0,
         7, 1, 0, 0, 0, 0, 0, 0, 0, 0x61,
         7, 0, 0, 0, 0, 0, 0, 0, 0]
       = (Some Assertion_failed, [(7, [0x61])], [])"
  by (simp add: eval_put eval_get put_string_def get_map_def get_pair_def get_string_def
      get_map_loop.simps resize_def store_def)

text \<open>
  Claim C10 as stated, for every wire input, fails on a stream too short to hold the
  count: the count is read before the destination is cleared, the read faults, and the
  destination is left as it was. Two destinations that differ stay different.
\<close>

theorem decode_depends_on_destination:
  "get_vector (get_T BDF_LITTLE_ENDIAN BDF_LITTLE_ENDIAN) (0 :: byte)
      BDF_LITTLE_ENDIAN BDF_LITTLE_ENDIAN [1] []
     \<noteq> get_vector (get_T BDF_LITTLE_ENDIAN BDF_LITTLE_ENDIAN) 0
      BDF_LITTLE_ENDIAN BDF_LITTLE_ENDIAN [2] []
   \<and> get_map (get_T BDF_LITTLE_ENDIAN BDF_LITTLE_ENDIAN) (get_T BDF_LITTLE_ENDIAN BDF_LITTLE_ENDIAN)
        (0 :: byte, 0 :: byte) BDF_LITTLE_ENDIAN BDF_LITTLE_ENDIAN [(1, 1)] [0, 0, 0]
     \<noteq> get_map (get_T BDF_LITTLE_ENDIAN BDF_LITTLE_ENDIAN) (get_T BDF_LITTLE_ENDIAN BDF_LITTLE_ENDIAN)
        (0, 0) BDF_LITTLE_ENDIAN BDF_LITTLE_ENDIAN [] [0, 0, 0]"
  by (simp add: get_vector_def get_map_def eval_get)

text \<open>
  Claim C10, amended. On every stream that holds at least the eight bytes of the count,
  the vector reader and the map reader end with the same status, the same container and
  the same remaining stream whatever the destination held before, for every element
  reader and also when a later read faults.
\<close>

theorem decode_ignores_destination:
  assumes "8 \<le> length ss"
  shows "get_vector get T0 sys Endian vv1 ss = get_vector get T0 sys Endian vv2 ss
         \<and> get_map get1 get2 p0 sys Endian mm1 ss = get_map get1 get2 p0 sys Endian mm2 ss"
proof -
  from get_T_enough [OF supported_size_t, of ss sys Endian] assms
  obtain n :: size_t where "\<And>d. get_T sys Endian d ss = (None, n, drop 8 ss)"
    by (auto simp add: sizeof_size_t)
  then show ?thesis
    by (simp add: get_vector_def get_map_def)
qed

theorem decode_ignores_destination_witness:
  "8 \<le> length [1, 0, 0, 0, 0, 0, 0, 0, 0x2A :: byte]
   \<and> get_vector (get_T BDF_LITTLE_ENDIAN BDF_LITTLE_ENDIAN) (0 :: byte)
        BDF_LITTLE_ENDIAN BDF_LITTLE_ENDIAN [5] [1, 0, 0, 0, 0, 0, 0, 0, 0x2A]
       = get_vector (get_T BDF_LITTLE_ENDIAN BDF_LITTLE_ENDIAN) 0
        BDF_LITTLE_ENDIAN BDF_LITTLE_ENDIAN [6, 7] [1, 0, 0, 0, 0, 0, 0, 0, 0x2A]
   \<and> get_map (get_T BDF_LITTLE_ENDIAN BDF_LITTLE_ENDIAN) (get_T BDF_LITTLE_ENDIAN BDF_LITTLE_ENDIAN)
        (0 :: byte, 0 :: byte) BDF_LITTLE_ENDIAN BDF_LITTLE_ENDIAN [(1, 1)] [1, 0, 0, 0, 0, 0, 0, 0, 0x2A]
       = get_map (get_T BDF_LITTLE_ENDIAN BDF_LITTLE_ENDIAN) (get_T BDF_LITTLE_ENDIAN BDF_LITTLE_ENDIAN)
        (0, 0) BDF_LITTLE_ENDIAN BDF_LITTLE_ENDIAN [] [1, 0, 0, 0, 0, 0, 0, 0, 0x2A]"
proof -
  have h: "8 \<le> length [1, 0, 0, 0, 0, 0, 0, 0, 0x2A :: byte]"
    by simp
  show ?thesis
    by (intro conjI h decode_ignores_destination [OF h, THEN conjunct1]
        decode_ignores_destination [OF h, THEN conjunct2])
qed

text \<open>A count of 1 and one element; a count of 2 and one element (the fault comes later).\<close>

lemma vector_decode_example:
  "get_vector (get_T BDF_LITTLE_ENDIAN BDF_LITTLE_ENDIAN) (0 :: byte)
        BDF_LITTLE_ENDIAN BDF_LITTLE_ENDIAN [5] [1, 0, 0, 0, 0, 0, 0, 0, 0x2A] = (None, [0x2A], [])"
  "get_vector (get_T BDF_LITTLE_ENDIAN BDF_LITTLE_ENDIAN) (0 :: byte)
        BDF_LITTLE_ENDIAN BDF_LITTLE_ENDIAN [5] [2, 0, 0, 0, 0, 0, 0, 0, 0x2A] = (Some Stream_fault, [0x2A, 0], [])"
  by code_simp+

text \<open>
  Claim C7, at the vector that holds one element, the empty string. The vector is
  written as the count 1 followed by the string's count 0. Reading a vector from these
  bytes resizes the destination to one element and reads that element with the string
  reader, which calls \<^verbatim>\<open>read(&str[0], 0)\<close>: the assertion \<^verbatim>\<open>n>0\<close> fails and the decode
  does not return the vector.
\<close>

theorem vector_of_empty_string_asserts:
  "put_vector (put_string BDF_LITTLE_ENDIAN BDF_LITTLE_ENDIAN) BDF_LITTLE_ENDIAN BDF_LITTLE_ENDIAN
     [[]] [] = Inr [1, 0, 0, 0, 0, 0, 0, 0, 0, 0, 0, 0, 0, 0, 0, 0]
   \<and> get_vector (get_string BDF_LITTLE_ENDIAN BDF_LITTLE_ENDIAN) [] BDF_LITTLE_ENDIAN
       BDF_LITTLE_ENDIAN vv0 [1, 0, 0, 0, 0, 0, 0, 0, 0, 0, 0, 0, 0, 0, 0, 0]
       = (Some Assertion_failed, [[]], [])"
  by (simp add: eval_put eval_get put_string_def get_vector_def get_string_def
      get_vector_loop.simps resize_def)

end
